theory Spec2Isabelle
  imports Complex_Main "HOL-Library.Log_Nat"
begin

section \<open>Ring-kernel particle detector (GranImage Day 3 notebook)\<close>

text \<open>
  The notebook computes with numpy arrays of IEEE doubles. A grid is a list of rows.
  What numpy does where arithmetic has no answer is modelled explicitly: a division
  by zero yields \<open>nan\<close> or \<open>inf\<close> (a warning, not an exception), a reduction over an
  empty array and a negative array dimension raise \<open>ValueError\<close>, an inner product of
  vectors of different lengths raises \<open>ValueError\<close>, an index out of range raises
  \<open>IndexError\<close>.

  Rounding is treated in two ways. The image normalizer takes the rounding of its
  operations as a parameter: with \<open>double\<close>, the rounding of IEEE binary64, it is the
  program, and with \<open>exact\<close> it is the same computation in real arithmetic. The kernel
  builder, the correlator and the refinement are written in exact real arithmetic; the
  double arithmetic of the kernel builder agrees with it up to the final subtraction
  of the mean for radii and widths of ordinary size with short binary expansions
  (\<open>short_binary\<close>), where no operation before it rounds. Overflow of the kernel
  builder for radii near the largest double and the memory that a grid needs are not
  modelled.
\<close>

subsection \<open>Values, errors and grids\<close>

datatype py_error = ValueError | IndexError

text \<open>A double as numpy sees it: a finite value, one of the infinities, or nan.\<close>

datatype npval = Fin real | PosInf | NegInf | NaN

type_synonym grid = "real list list"

type_synonym npgrid = "npval list list"

definition fin_grid :: "grid \<Rightarrow> npgrid" where
  "fin_grid g = map (map Fin) g"

text \<open>\<^verbatim>\<open>np.mean(a)\<close>: the sum of all cells over their number.\<close>

definition np_mean :: "grid \<Rightarrow> real" where
  "np_mean g = sum_list (concat g) / real (length (concat g))"

text \<open>\<^verbatim>\<open>np.max(a)\<close>: raises ValueError on an array without cells.\<close>

definition np_max :: "grid \<Rightarrow> py_error + real" where
  "np_max g = (case concat g of [] \<Rightarrow> Inl ValueError | v # vs \<Rightarrow> Inr (fold max vs v))"

text \<open>
  IEEE division of two finite doubles, as numpy performs it: \<open>0/0\<close> is nan and
  \<open>x/0\<close> is an infinity with the sign of \<open>x\<close> (signed zeros are not modelled).
\<close>

definition np_divide :: "real \<Rightarrow> real \<Rightarrow> npval" where
  "np_divide v m =
     (if m = 0 then (if v = 0 then NaN else if 0 < v then PosInf else NegInf)
      else Fin (v / m))"

subsection \<open>Kernel builder\<close>

text \<open>
  \<^verbatim>\<open>
  def circkernel(R, w):
      kdim = int(np.ceil(2*(float(R)+0.5)))
      c = (kdim-1)/2.0
      kernel = np.zeros((kdim, kdim))
      x, y = np.indices((kdim, kdim))
      kernel = ((x-c)**2 + (y-c)**2 < R**2 ) &  ((x-c)**2 + (y-c)**2 > (R-w)**2 )
      return(kernel - np.mean(kernel), c)
  \<close>
  \<open>np.zeros\<close> raises ValueError on a negative dimension. The boolean array is cast
  to 0/1 by the subtraction of its mean. The arithmetic is exact: the rounding of
  \<open>2*(float(R)+0.5)\<close>, \<open>R**2\<close>, \<open>(R-w)**2\<close> and of the mean, and the OverflowError of
  \<open>int(np.ceil(inf))\<close> for a radius near the largest double, are not modelled.
\<close>

definition kdim_of :: "real \<Rightarrow> int" where
  "kdim_of R = \<lceil>2 * (R + 1 / 2)\<rceil>"

definition in_ring :: "real \<Rightarrow> real \<Rightarrow> real \<Rightarrow> nat \<Rightarrow> nat \<Rightarrow> bool" where
  "in_ring R w c x y \<longleftrightarrow>
     (real x - c)\<^sup>2 + (real y - c)\<^sup>2 < R\<^sup>2 \<and> (real x - c)\<^sup>2 + (real y - c)\<^sup>2 > (R - w)\<^sup>2"

definition ring_mask :: "real \<Rightarrow> real \<Rightarrow> grid" where
  "ring_mask R w =
     (let kdim = kdim_of R; c = (real_of_int kdim - 1) / 2
      in map (\<lambda>x. map (\<lambda>y. if in_ring R w c x y then 1 else 0) [0..<nat kdim]) [0..<nat kdim])"

definition circkernel :: "real \<Rightarrow> real \<Rightarrow> py_error + (grid \<times> real)" where
  "circkernel R w =
     (let kdim = kdim_of R; c = (real_of_int kdim - 1) / 2
      in if kdim < 0 then Inl ValueError
         else let kernel = ring_mask R w
              in Inr (map (map (\<lambda>v. v - np_mean kernel)) kernel, c))"


subsection \<open>Arithmetic and comparison of doubles\<close>

text \<open>
  The IEEE rules for the infinities and nan, on exact values: an array divided by
  its maximum may hold nan or infinities, and the steps after it compute with them.
\<close>

fun np_add :: "npval \<Rightarrow> npval \<Rightarrow> npval" where
  "np_add (Fin a) (Fin b) = Fin (a + b)"
| "np_add NaN _ = NaN"
| "np_add _ NaN = NaN"
| "np_add PosInf NegInf = NaN"
| "np_add NegInf PosInf = NaN"
| "np_add PosInf _ = PosInf"
| "np_add _ PosInf = PosInf"
| "np_add NegInf _ = NegInf"
| "np_add _ NegInf = NegInf"

fun np_mul :: "npval \<Rightarrow> npval \<Rightarrow> npval" where
  "np_mul (Fin a) (Fin b) = Fin (a * b)"
| "np_mul NaN _ = NaN"
| "np_mul _ NaN = NaN"
| "np_mul (Fin a) PosInf = (if a = 0 then NaN else if 0 < a then PosInf else NegInf)"
| "np_mul (Fin a) NegInf = (if a = 0 then NaN else if 0 < a then NegInf else PosInf)"
| "np_mul PosInf (Fin b) = (if b = 0 then NaN else if 0 < b then PosInf else NegInf)"
| "np_mul NegInf (Fin b) = (if b = 0 then NaN else if 0 < b then NegInf else PosInf)"
| "np_mul PosInf PosInf = PosInf"
| "np_mul NegInf NegInf = PosInf"
| "np_mul PosInf NegInf = NegInf"
| "np_mul NegInf PosInf = NegInf"

fun np_div :: "npval \<Rightarrow> npval \<Rightarrow> npval" where
  "np_div (Fin a) (Fin b) = np_divide a b"
| "np_div NaN _ = NaN"
| "np_div _ NaN = NaN"
| "np_div (Fin a) _ = Fin 0"
| "np_div PosInf (Fin b) = (if 0 \<le> b then PosInf else NegInf)"
| "np_div NegInf (Fin b) = (if 0 \<le> b then NegInf else PosInf)"
| "np_div _ _ = NaN"

fun np_less :: "npval \<Rightarrow> npval \<Rightarrow> bool" where
  "np_less (Fin a) (Fin b) = (a < b)"
| "np_less NaN _ = False"
| "np_less _ NaN = False"
| "np_less PosInf _ = False"
| "np_less _ NegInf = False"
| "np_less NegInf _ = True"
| "np_less _ PosInf = True"

definition np_eq :: "npval \<Rightarrow> npval \<Rightarrow> bool" where
  "np_eq a b \<longleftrightarrow> a \<noteq> NaN \<and> a = b"

definition np_le :: "npval \<Rightarrow> npval \<Rightarrow> bool" where
  "np_le a b \<longleftrightarrow> np_less a b \<or> np_eq a b"

text \<open>\<^verbatim>\<open>np.sum\<close> of a vector of doubles.\<close>

definition np_sum :: "npval list \<Rightarrow> npval" where
  "np_sum ws = foldl np_add (Fin 0) ws"

fun np_neg :: "npval \<Rightarrow> npval" where
  "np_neg (Fin a) = Fin (- a)"
| "np_neg PosInf = NegInf"
| "np_neg NegInf = PosInf"
| "np_neg NaN = NaN"

subsection \<open>Rounding\<close>

text \<open>
  A rounding maps the exact result of an operation on finite doubles to the double
  that the operation returns. \<open>double\<close> is IEEE binary64 with round to nearest, ties
  to even: 53 significant bits, subnormals below \<open>2^-1022\<close>, an infinity from
  \<open>2^1024\<close> on (signed zeros are not modelled). \<open>exponent x\<close> is the \<open>e\<close> with
  \<open>2^e \<le> |x| < 2^(e+1)\<close>. \<open>exact\<close> does not round.
\<close>

type_synonym rounding = "real \<Rightarrow> npval"

definition exponent :: "real \<Rightarrow> int" where
  "exponent x =
     (if 1 \<le> \<bar>x\<bar> then bitlen \<lfloor>\<bar>x\<bar>\<rfloor> - 1 else - bitlen (\<lceil>1 / \<bar>x\<bar>\<rceil> - 1))"

definition two_pow :: "int \<Rightarrow> real" where
  "two_pow k = (if 0 \<le> k then 2 ^ nat k else 1 / 2 ^ nat (- k))"

definition round_even :: "real \<Rightarrow> int" where
  "round_even q =
     (let f = \<lfloor>q\<rfloor>; r = q - real_of_int f
      in if r < 1 / 2 then f else if 1 / 2 < r then f + 1 else if even f then f else f + 1)"

definition double :: rounding where
  "double x =
     (if x = 0 then Fin 0
      else let e = max (exponent x) (- 1022);
               u = two_pow (e - 52);
               y = real_of_int (round_even (\<bar>x\<bar> / u)) * u
           in if two_pow 1024 \<le> y then (if 0 < x then PosInf else NegInf)
              else Fin (if 0 < x then y else - y))"

definition exact :: rounding where
  "exact x = Fin x"

text \<open>The elementwise operations of numpy on doubles: the IEEE result, rounded.\<close>

definition rounded :: "rounding \<Rightarrow> npval \<Rightarrow> npval" where
  "rounded rnd v = (case v of Fin x \<Rightarrow> rnd x | _ \<Rightarrow> v)"

definition fl_add :: "rounding \<Rightarrow> npval \<Rightarrow> npval \<Rightarrow> npval" where
  "fl_add rnd a b = rounded rnd (np_add a b)"

definition fl_sub :: "rounding \<Rightarrow> npval \<Rightarrow> npval \<Rightarrow> npval" where
  "fl_sub rnd a b = rounded rnd (np_add a (np_neg b))"

definition fl_div :: "rounding \<Rightarrow> npval \<Rightarrow> npval \<Rightarrow> npval" where
  "fl_div rnd a b = rounded rnd (np_div a b)"

subsection \<open>Image normalizer\<close>

text \<open>
  \<^verbatim>\<open>
  image = image - np.mean(image)
  image = image/np.max(image)
  \<close>
  \<open>np.mean\<close> of an array of doubles adds the cells and divides by their number
  (\<open>nan\<close> on an array without cells). The cells are added from left to right, which is
  numpy's order for fewer than 8 cells; for more cells numpy adds in blocks, with the
  same sum up to rounding. \<open>np.max\<close> of an array of doubles returns \<open>nan\<close> if a cell
  is \<open>nan\<close> and raises on an array without cells. The subtraction and the division
  are cell by cell and never raise.
\<close>

definition np_mean_fl :: "rounding \<Rightarrow> grid \<Rightarrow> npval" where
  "np_mean_fl rnd g =
     fl_div rnd (foldl (\<lambda>s v. fl_add rnd s (Fin v)) (Fin 0) (concat g))
                (Fin (real (length (concat g))))"

definition np_maximum :: "npval \<Rightarrow> npval \<Rightarrow> npval" where
  "np_maximum a b = (if a = NaN \<or> b = NaN then NaN else if np_less a b then b else a)"

definition np_amax :: "npgrid \<Rightarrow> py_error + npval" where
  "np_amax g = (case concat g of [] \<Rightarrow> Inl ValueError | v # vs \<Rightarrow> Inr (foldl np_maximum v vs))"

definition normalize_image :: "rounding \<Rightarrow> grid \<Rightarrow> py_error + npgrid" where
  "normalize_image rnd img =
     (let mean = np_mean_fl rnd img;
          centred = map (map (\<lambda>v. fl_sub rnd (Fin v) mean)) img
      in case np_amax centred of
           Inl e \<Rightarrow> Inl e
         | Inr m \<Rightarrow> Inr (map (map (\<lambda>c. fl_div rnd c m)) centred))"

subsection \<open>Correlator\<close>

definition ncols :: "'a list list \<Rightarrow> nat" where
  "ncols g = (case g of [] \<Rightarrow> 0 | row # _ \<Rightarrow> length row)"

text \<open>A read of the image with the constant boundary \<open>cval = 0\<close>.\<close>

definition pixel0 :: "grid \<Rightarrow> int \<Rightarrow> int \<Rightarrow> real" where
  "pixel0 img x y =
     (if 0 \<le> x \<and> x < int (length img) \<and> 0 \<le> y \<and> y < int (length (img ! nat x))
      then img ! nat x ! nat y else 0)"

text \<open>
  Modelled from the spec: \<^verbatim>\<open>ndimage.convolve(image, ckern, mode='constant', cval=0.0)\<close>
  is scipy's routine, which the repository calls and does not contain. Spec 4.3 and the
  notebook give its formula, \<open>out(x,y) = \<Sum>\<^sub>i \<Sum>\<^sub>j kernel(i,j) \<cdot> image(x - i, y - j)\<close> with
  the kernel centred at the pixel, out-of-range taps contributing zero, the output
  of the shape of the image, and one failure, a kernel larger than the image.
\<close>

datatype lib_error = KernelTooLargeError

definition convolve_cell :: "grid \<Rightarrow> grid \<Rightarrow> nat \<Rightarrow> nat \<Rightarrow> real" where
  "convolve_cell img weights x y =
     (\<Sum>a\<leftarrow>[0..<length weights]. \<Sum>b\<leftarrow>[0..<length (weights ! a)].
        weights ! a ! b *
        pixel0 img (int x + int (length weights div 2) - int a)
                     (int y + int (length (weights ! a) div 2) - int b))"

definition convolve :: "grid \<Rightarrow> grid \<Rightarrow> lib_error + grid" where
  "convolve img weights =
     (if length img < length weights \<or> ncols img < ncols weights then Inl KernelTooLargeError
      else Inr (map (\<lambda>x. map (\<lambda>y. convolve_cell img weights x y) [0..<length (img ! x)])
                  [0..<length img]))"

text \<open>
  The first two lines of \<open>convcirc\<close>:
  \<^verbatim>\<open>
  conv = ndimage.convolve(image, ckern, mode='constant', cval=0.0)
  conv = conv/np.max(conv)
  \<close>
\<close>

datatype error = Py py_error | Lib lib_error

definition correlation_map :: "grid \<Rightarrow> grid \<Rightarrow> error + npgrid" where
  "correlation_map img ckern =
     (case convolve img ckern of
        Inl e \<Rightarrow> Inl (Lib e)
      | Inr conv \<Rightarrow>
          (case np_max conv of
             Inl e \<Rightarrow> Inl (Py e)
           | Inr m \<Rightarrow> Inr (map (map (\<lambda>v. np_divide v m)) conv)))"

subsection \<open>Peak extractor\<close>

definition coords :: "'a list list \<Rightarrow> (nat \<times> nat) list" where
  "coords g = concat (map (\<lambda>r. map (\<lambda>c. (r, c)) [0..<length (g ! r)]) [0..<length g])"

definition near :: "int \<Rightarrow> nat \<times> nat \<Rightarrow> nat \<times> nat \<Rightarrow> bool" where
  "near d p q \<longleftrightarrow> \<bar>int (fst q) - int (fst p)\<bar> \<le> d \<and> \<bar>int (snd q) - int (snd p)\<bar> \<le> d"

definition before :: "nat \<times> nat \<Rightarrow> nat \<times> nat \<Rightarrow> bool" where
  "before q p \<longleftrightarrow> fst q < fst p \<or> (fst q = fst p \<and> snd q < snd p)"

definition cell :: "npgrid \<Rightarrow> nat \<times> nat \<Rightarrow> npval" where
  "cell g p = g ! fst p ! snd p"

text \<open>
  Modelled from the spec: \<^verbatim>\<open>peak_local_max(conv, min_distance, threshold_abs)\<close> is
  scikit-image's routine, which the repository calls and does not contain. Spec 4.4:
  a cell is accepted if it is the maximum value within its \<open>min_distance\<close>
  neighbourhood, ties broken by the first encountered in row-major order, and its
  value is at least the threshold; the peaks come in scan order, and zero peaks are
  an empty result.
\<close>

definition local_max :: "npgrid \<Rightarrow> int \<Rightarrow> nat \<times> nat \<Rightarrow> bool" where
  "local_max conv d p \<longleftrightarrow>
     list_all (\<lambda>q. q = p \<or> \<not> near d p q \<or> np_less (cell conv q) (cell conv p) \<or>
                    (np_eq (cell conv q) (cell conv p) \<and> before p q))
              (coords conv)"

definition peak_local_max :: "npgrid \<Rightarrow> int \<Rightarrow> real \<Rightarrow> (nat \<times> nat) list" where
  "peak_local_max conv min_distance threshold_abs =
     filter (\<lambda>p. np_le (Fin threshold_abs) (cell conv p) \<and> local_max conv min_distance p)
            (coords conv)"

subsection \<open>Sub-pixel refinement\<close>

text \<open>
  Python's slice \<open>xs[start:stop]\<close>: a negative bound counts from the end, and both
  bounds are clamped to the list. Python's index \<open>xs[i]\<close> on an axis of \<open>n\<close> cells.
\<close>

definition py_slice :: "'a list \<Rightarrow> int \<Rightarrow> int \<Rightarrow> 'a list" where
  "py_slice xs start stop =
     (let n = int (length xs);
          a = (if start < 0 then max (start + n) 0 else min start n);
          b = (if stop < 0 then max (stop + n) 0 else min stop n)
      in take (nat (b - a)) (drop (nat a) xs))"

definition py_index :: "nat \<Rightarrow> int \<Rightarrow> py_error + nat" where
  "py_index n i =
     (if - int n \<le> i \<and> i < int n then Inr (nat (if i < 0 then i + int n else i))
      else Inl IndexError)"

text \<open>\<^verbatim>\<open>np.dot\<close> of an integer vector and a vector of doubles: the lengths must agree.\<close>

definition np_dot :: "int list \<Rightarrow> npval list \<Rightarrow> py_error + npval" where
  "np_dot xs ws =
     (if length xs \<noteq> length ws then Inl ValueError
      else Inr (np_sum (map2 (\<lambda>x w. np_mul (Fin (real_of_int x)) w) xs ws)))"

text \<open>
  \<^verbatim>\<open>
  fitmax = np.copy(max.astype(float))
  p = 2
  prange = np.arange(-p,p+1)
  for i in range(max.shape[0]):
      x0 = max[i,0]
      y0 = max[i,1]
      fitmax[i,0] = np.sum(np.dot(x0+prange, conv[x0-p:x0+p+1, y0]))/np.sum(conv[x0-p:x0+p+1, y0])
      fitmax[i,1] = np.sum(np.dot(y0+prange, conv[x0, y0-p:y0+p+1]))/np.sum(conv[x0, y0-p:y0+p+1])
  return (fitmax)
  \<close>
  \<open>conv\<close> is a rectangular array; the integer index of a window is checked against its
  axis.
\<close>

definition p :: int where
  "p = 2"

definition prange :: "int list" where
  "prange = [- p..p]"

definition col_window :: "npgrid \<Rightarrow> int \<Rightarrow> int \<Rightarrow> py_error + npval list" where
  "col_window conv x0 y0 =
     (case py_index (ncols conv) y0 of
        Inl e \<Rightarrow> Inl e
      | Inr j \<Rightarrow> Inr (map (\<lambda>row. row ! j) (py_slice conv (x0 - p) (x0 + p + 1))))"

definition row_window :: "npgrid \<Rightarrow> int \<Rightarrow> int \<Rightarrow> py_error + npval list" where
  "row_window conv x0 y0 =
     (case py_index (length conv) x0 of
        Inl e \<Rightarrow> Inl e
      | Inr i \<Rightarrow> Inr (py_slice (conv ! i) (y0 - p) (y0 + p + 1)))"

definition centroid :: "int \<Rightarrow> npval list \<Rightarrow> py_error + npval" where
  "centroid x0 window =
     (case np_dot (map (\<lambda>k. x0 + k) prange) window of
        Inl e \<Rightarrow> Inl e
      | Inr num \<Rightarrow> Inr (np_div num (np_sum window)))"

definition refine_peak :: "npgrid \<Rightarrow> int \<times> int \<Rightarrow> py_error + (npval \<times> npval)" where
  "refine_peak conv pk =
     (case pk of (x0, y0) \<Rightarrow>
        (case col_window conv x0 y0 of
           Inl e \<Rightarrow> Inl e
         | Inr wx \<Rightarrow>
             (case centroid x0 wx of
                Inl e \<Rightarrow> Inl e
              | Inr fx \<Rightarrow>
                  (case row_window conv x0 y0 of
                     Inl e \<Rightarrow> Inl e
                   | Inr wy \<Rightarrow>
                       (case centroid y0 wy of
                          Inl e \<Rightarrow> Inl e
                        | Inr fy \<Rightarrow> Inr (fx, fy))))))"

fun refine :: "npgrid \<Rightarrow> (int \<times> int) list \<Rightarrow> py_error + (npval \<times> npval) list" where
  "refine conv [] = Inr []"
| "refine conv (pk # pks) =
     (case refine_peak conv pk of
        Inl e \<Rightarrow> Inl e
      | Inr f \<Rightarrow> (case refine conv pks of Inl e \<Rightarrow> Inl e | Inr fs \<Rightarrow> Inr (f # fs)))"

subsection \<open>The detector\<close>

text \<open>
  The notebook defines \<open>convcirc\<close> three times. \<open>convcirc_peaks\<close> is the second
  definition, which returns the integer peaks; \<open>convcirc\<close> is the last one, which
  refines them.
\<close>

definition convcirc_peaks :: "grid \<Rightarrow> real \<Rightarrow> real \<Rightarrow> real \<Rightarrow> error + (nat \<times> nat) list" where
  "convcirc_peaks img R w thresh =
     (case circkernel R w of
        Inl e \<Rightarrow> Inl (Py e)
      | Inr (ckern, x) \<Rightarrow>
          (case correlation_map img ckern of
             Inl e \<Rightarrow> Inl e
           | Inr conv \<Rightarrow> Inr (peak_local_max conv \<lceil>R\<rceil> thresh)))"

definition convcirc :: "grid \<Rightarrow> real \<Rightarrow> real \<Rightarrow> real \<Rightarrow> error + (npval \<times> npval) list" where
  "convcirc img R w thresh =
     (case circkernel R w of
        Inl e \<Rightarrow> Inl (Py e)
      | Inr (ckern, x) \<Rightarrow>
          (case correlation_map img ckern of
             Inl e \<Rightarrow> Inl e
           | Inr conv \<Rightarrow>
               (case refine conv (map (\<lambda>(r, c). (int r, int c)) (peak_local_max conv \<lceil>R\<rceil> thresh)) of
                  Inl e \<Rightarrow> Inl (Py e)
                | Inr fitmax \<Rightarrow> Inr fitmax)))"

subsection \<open>Grid symmetries\<close>

text \<open>
  The operations of the symmetry property, as numpy names them: \<open>fliplr\<close> reverses
  every row, \<open>flipud\<close> reverses the order of the rows, \<open>rot90\<close> turns the grid by a
  quarter turn, \<open>rot90 g ! i ! j = g ! j ! (n - 1 - i)\<close>.
\<close>

definition fliplr :: "'a list list \<Rightarrow> 'a list list" where
  "fliplr g = map rev g"

definition flipud :: "'a list list \<Rightarrow> 'a list list" where
  "flipud g = rev g"

definition rot90 :: "'a list list \<Rightarrow> 'a list list" where
  "rot90 g = rev (transpose g)"

subsection \<open>Test grids\<close>

text \<open>
  The kernel for \<open>R = 2\<close>, \<open>w = 1\<close>, and two 5 by 5 images with the correlation maps
  that the kernel gives on them.
\<close>

abbreviation ring_2_1 :: grid where
  "ring_2_1 \<equiv> [[- (4 / 25), - (4 / 25), - (4 / 25), - (4 / 25), - (4 / 25)],
           [- (4 / 25), 21 / 25, - (4 / 25), 21 / 25, - (4 / 25)],
           [- (4 / 25), - (4 / 25), - (4 / 25), - (4 / 25), - (4 / 25)],
           [- (4 / 25), 21 / 25, - (4 / 25), 21 / 25, - (4 / 25)],
           [- (4 / 25), - (4 / 25), - (4 / 25), - (4 / 25), - (4 / 25)]]"

abbreviation two_dots :: grid where
  "two_dots \<equiv> [[0, 0, 0, 0, 0], [0, 0, 0, 0, - 1], [0, 0, 0, 0, 0], [0, 1, 0, 0, 0], [0, 0, 0, 0, 0]]"

abbreviation two_dots_map :: grid where
  "two_dots_map \<equiv> [[0, 0, 4 / 25, - (21 / 25), 4 / 25],
      [- (4 / 25), - (4 / 25), 0, 0, 4 / 25],
      [21 / 25, - (4 / 25), 1, - 1, 4 / 25],
      [- (4 / 25), - (4 / 25), 0, 0, 4 / 25],
      [21 / 25, - (4 / 25), 21 / 25, - (4 / 25), 0]]"

abbreviation dot_image :: grid where
  "dot_image \<equiv> [[0, 0, 0, 0, 0], [0, 0, 0, 0, 0], [0, 0, - 1, 0, 0], [0, 0, 0, 0, 0], [0, 0, 0, 0, 0]]"

abbreviation dot_map :: grid where
  "dot_map \<equiv> [[1, 1, 1, 1, 1], [1, - (21 / 4), 1, - (21 / 4), 1], [1, 1, 1, 1, 1],
               [1, - (21 / 4), 1, - (21 / 4), 1], [1, 1, 1, 1, 1]]"

text \<open>A correlation map with a peak at the centre and no negative cell around it.\<close>

abbreviation bump_map :: grid where
  "bump_map \<equiv> [[0, 0, 1 / 2, 0, 0], [0, 0, 1 / 2, 0, 0], [1 / 4, 1 / 2, 1, 1 / 2, 1 / 2],
                [0, 0, 1 / 2, 0, 0], [0, 0, 3 / 4, 0, 0]]"

subsection \<open>Conditions on peaks and windows\<close>

text \<open>
  The conditions under which the refinement is studied: a rectangular grid, a peak
  with its whole window of \<open>2 p + 1\<close> cells inside the grid on both axes
  (\<open>interior\<close>) or not (\<open>in_grid\<close> only), and a window whose cells are not negative
  and do not sum to zero. \<open>col_values\<close> and \<open>row_values\<close> are the cells that the two
  windows of a peak read.
\<close>

definition rectangular :: "'a list list \<Rightarrow> bool" where
  "rectangular g \<longleftrightarrow> (\<forall>row\<in>set g. length row = ncols g)"

definition in_grid :: "'a list list \<Rightarrow> int \<times> int \<Rightarrow> bool" where
  "in_grid g pk \<longleftrightarrow>
     0 \<le> fst pk \<and> fst pk < int (length g) \<and> 0 \<le> snd pk \<and> snd pk < int (ncols g)"

definition interior :: "'a list list \<Rightarrow> int \<times> int \<Rightarrow> bool" where
  "interior g pk \<longleftrightarrow>
     p \<le> fst pk \<and> fst pk + p < int (length g) \<and> p \<le> snd pk \<and> snd pk + p < int (ncols g)"

definition col_values :: "grid \<Rightarrow> int \<times> int \<Rightarrow> real list" where
  "col_values g pk = map (\<lambda>k. g ! nat (fst pk + k) ! nat (snd pk)) prange"

definition row_values :: "grid \<Rightarrow> int \<times> int \<Rightarrow> real list" where
  "row_values g pk = map (\<lambda>k. g ! nat (fst pk) ! nat (snd pk + k)) prange"

definition positive_window :: "real list \<Rightarrow> bool" where
  "positive_window ws \<longleftrightarrow> (\<forall>v\<in>set ws. 0 \<le> v) \<and> 0 < sum_list ws"

definition within_window :: "int \<times> int \<Rightarrow> npval \<times> npval \<Rightarrow> bool" where
  "within_window pk f \<longleftrightarrow>
     (\<exists>fx fy. f = (Fin fx, Fin fy) \<and> \<bar>fx - real_of_int (fst pk)\<bar> \<le> real_of_int p \<and>
              \<bar>fy - real_of_int (snd pk)\<bar> \<le> real_of_int p)"

section \<open>Properties\<close>

subsection \<open>Sums over grids\<close>

lemma sum_list_shift: "sum_list (map (\<lambda>v. v - m) xs) = sum_list xs - m * real (length xs)"
  for m :: real
  by (induction xs) (simp_all add: algebra_simps)

lemma concat_map_map: "concat (map (map f) g) = map f (concat g)"
  by (induction g) simp_all

lemma sum_centred_zero:
  assumes "concat g \<noteq> []"
  shows "sum_list (concat (map (map (\<lambda>v. v - np_mean g)) g)) = 0"
proof -
  have "real (length (concat g)) \<noteq> 0"
    using assms by simp
  then show ?thesis
    by (simp add: concat_map_map sum_list_shift np_mean_def)
qed

lemma kdim_pos: "0 < R \<Longrightarrow> 2 \<le> kdim_of R"
proof -
  assume "0 < R"
  then have "(1::real) < 2 * (R + 1 / 2)" by simp
  then have "1 < \<lceil>2 * (R + 1 / 2)\<rceil>" by (simp add: less_ceiling_iff)
  then show ?thesis by (simp add: kdim_of_def)
qed


lemma concat_ring_mask_nonempty: "0 < kdim_of R \<Longrightarrow> concat (ring_mask R w) \<noteq> []"
proof -
  assume k: "0 < kdim_of R"
  then have "0 < nat (kdim_of R)" by simp
  then have "[0..<nat (kdim_of R)] \<noteq> []" by simp
  then obtain a as where "[0..<nat (kdim_of R)] = a # as"
    by (cases "[0..<nat (kdim_of R)]") auto
  then show ?thesis
    by (simp add: ring_mask_def Let_def)
qed

lemma circkernel_Inr:
  "0 \<le> kdim_of R \<Longrightarrow>
   circkernel R w =
     Inr (map (map (\<lambda>v. v - np_mean (ring_mask R w))) (ring_mask R w),
          (real_of_int (kdim_of R) - 1) / 2)"
  by (simp add: circkernel_def Let_def)

subsection \<open>C1: the ring kernel sums to zero\<close>

text \<open>
  C1. For every valid radius \<open>R > 0\<close> and ring width \<open>0 < w \<le> R\<close>, \<open>circkernel\<close>
  returns a kernel (no error) and the sum of all its cells is 0 in exact arithmetic.
\<close>

theorem circkernel_sum_zero:
  assumes "0 < R" and "0 < w" and "w \<le> R"
  shows "\<exists>k c. circkernel R w = Inr (k, c) \<and> sum_list (concat k) = 0"
proof -
  have k: "2 \<le> kdim_of R" using assms(1) by (rule kdim_pos)
  then have "concat (ring_mask R w) \<noteq> []"
    by (intro concat_ring_mask_nonempty) simp
  then have "sum_list (concat (map (map (\<lambda>v. v - np_mean (ring_mask R w))) (ring_mask R w))) = 0"
    by (rule sum_centred_zero)
  moreover have "0 \<le> kdim_of R" using k by simp
  ultimately show ?thesis
    using circkernel_Inr [of R w] by blast
qed

theorem circkernel_sum_zero_witness:
  "(0::real) < 2 \<and> (0::real) < 1 \<and> (1::real) \<le> 2 \<and>
   (\<exists>k c. circkernel 2 1 = Inr (k, c) \<and> sum_list (concat k) = 0)"
  using circkernel_sum_zero [of 2 1] by simp

subsection \<open>C5: the kernel builder validates nothing\<close>





subsection \<open>C6: the shape of the kernel grid\<close>






subsection \<open>C9: the kernel is symmetric\<close>

lemma rev_eq_self:
  assumes "length h = n" and "\<And>i. i < n \<Longrightarrow> h ! (n - Suc i) = h ! i"
  shows "rev h = h"
proof (rule nth_equalityI)
  show "length (rev h) = length h" by simp
  fix i assume "i < length (rev h)"
  then have i: "i < n" using assms(1) by simp
  then have "rev h ! i = h ! (n - Suc i)" using assms(1) by (simp add: rev_nth)
  also have "\<dots> = h ! i" using assms(2) [OF i] .
  finally show "rev h ! i = h ! i" .
qed

lemma table_symmetry:
  fixes f :: "nat \<Rightarrow> nat \<Rightarrow> 'a"
  assumes sym: "\<And>i j. i < n \<Longrightarrow> j < n \<Longrightarrow> f i j = f j i"
      and flip: "\<And>i j. i < n \<Longrightarrow> j < n \<Longrightarrow> f (n - Suc i) j = f i j"
  defines "g \<equiv> map (\<lambda>x. map (\<lambda>y. f x y) [0..<n]) [0..<n]"
  shows "fliplr g = g \<and> flipud g = g \<and> rot90 g = g"
proof -
  have flip2: "f i (n - Suc j) = f i j" if "i < n" "j < n" for i j
  proof -
    have "f i (n - Suc j) = f (n - Suc j) i" using that by (intro sym) auto
    also have "\<dots> = f j i" using that by (intro flip) auto
    also have "\<dots> = f i j" using that by (intro sym) auto
    finally show ?thesis .
  qed
  have row: "rev (map (\<lambda>y. f x y) [0..<n]) = map (\<lambda>y. f x y) [0..<n]" if "x < n" for x
    by (rule rev_eq_self [where n = n]) (use that in \<open>simp_all add: flip2\<close>)
  have lr: "fliplr g = g"
    unfolding fliplr_def g_def by (rule nth_equalityI) (simp_all add: row)
  have udg: "flipud g = g"
    unfolding flipud_def g_def
    by (rule rev_eq_self [where n = n]) (simp_all add: flip)
  have "transpose g = map (\<lambda>i. map (\<lambda>j. g ! j ! i) [0..<length g]) [0..<n]"
    by (rule transpose_rectangle) (auto simp: g_def)
  also have "\<dots> = g"
    unfolding g_def by (rule nth_equalityI) (simp_all add: sym)
  finally have "transpose g = g" .
  then have "rot90 g = g"
    using udg by (simp add: rot90_def flipud_def)
  with lr udg show ?thesis by simp
qed

lemma in_ring_sym: "in_ring R w c i j = in_ring R w c j i"
  by (auto simp: in_ring_def add.commute)

lemma in_ring_flip:
  assumes "i < nat k"
  shows "in_ring R w ((real_of_int k - 1) / 2) (nat k - Suc i) j = in_ring R w ((real_of_int k - 1) / 2) i j"
proof -
  have "real (nat k - Suc i) = real_of_int k - 1 - real i"
    using assms by (simp add: of_nat_diff)
  then have "(real (nat k - Suc i) - (real_of_int k - 1) / 2)\<^sup>2 = (real i - (real_of_int k - 1) / 2)\<^sup>2"
    by (simp add: power2_eq_square field_simps)
  then show ?thesis by (simp add: in_ring_def)
qed

lemma centred_mask_table:
  "map (map (\<lambda>v. v - m)) (ring_mask R w) =
   map (\<lambda>x. map (\<lambda>y. (if in_ring R w ((real_of_int (kdim_of R) - 1) / 2) x y then 1 else 0) - m)
          [0..<nat (kdim_of R)]) [0..<nat (kdim_of R)]"
  by (simp add: ring_mask_def Let_def comp_def)

lemma centred_mask_symmetry:
  fixes m R w :: real
  defines "k \<equiv> map (map (\<lambda>v. v - m)) (ring_mask R w)"
  shows "fliplr k = k \<and> flipud k = k \<and> rot90 k = k"
  unfolding k_def centred_mask_table
proof (rule table_symmetry)
  fix i j
  show "(if in_ring R w ((real_of_int (kdim_of R) - 1) / 2) i j then 1 else 0) - m =
        (if in_ring R w ((real_of_int (kdim_of R) - 1) / 2) j i then 1 else 0) - m"
    by (simp only: in_ring_sym [of R w _ i j])
  assume "i < nat (kdim_of R)"
  then show "(if in_ring R w ((real_of_int (kdim_of R) - 1) / 2) (nat (kdim_of R) - Suc i) j
              then 1 else 0) - m =
             (if in_ring R w ((real_of_int (kdim_of R) - 1) / 2) i j then 1 else 0) - m"
    by (simp only: in_ring_flip)
qed

text \<open>
  C9. For every valid \<open>(R, w)\<close> the kernel grid returned by \<open>circkernel\<close> is equal,
  cell for cell, to its mirror images (left-right and up-down) and to its quarter
  turn.
\<close>

theorem circkernel_symmetric:
  assumes "0 < R" and "0 < w" and "w \<le> R"
  shows "\<exists>k c. circkernel R w = Inr (k, c) \<and> fliplr k = k \<and> flipud k = k \<and> rot90 k = k"
proof -
  have "0 \<le> kdim_of R" using kdim_pos [OF assms(1)] by simp
  from circkernel_Inr [OF this, of w] centred_mask_symmetry [of "np_mean (ring_mask R w)" R w]
  show ?thesis by blast
qed

theorem circkernel_symmetric_witness:
  "(0::real) < 2 \<and> (0::real) < 1 \<and> (1::real) \<le> 2 \<and>
   (\<exists>k c. circkernel 2 1 = Inr (k, c) \<and> fliplr k = k \<and> flipud k = k \<and> rot90 k = k)"
  using circkernel_symmetric [of 2 1] by simp

subsection \<open>Maximum and mean of a grid\<close>

lemma np_max_Max: "concat g \<noteq> [] \<Longrightarrow> np_max g = Inr (Max (set (concat g)))"
  by (cases "concat g") (simp_all add: np_max_def Max.set_eq_fold del: set_simps)



subsection \<open>Evaluating the normalizer\<close>

lemmas double_eval = double_def exponent_def two_pow_def round_even_def compute_bitlen Let_def
lemmas normalize_eval = normalize_image_def np_mean_fl_def np_amax_def fl_div_def fl_add_def
  fl_sub_def rounded_def np_maximum_def np_divide_def fin_grid_def

lemma double_zero: "double 0 = Fin 0"
  by (simp add: double_def)

text \<open>
  The constant image of the double nearest to 0.1: the sum of the three cells rounds,
  the mean is one unit above the cells, the centred cells are \<open>-2^-56\<close>, and the
  result is all ones, not nan.
\<close>

lemma normalize_image_tenth:
  "normalize_image double
     [[3602879701896397 / 36028797018963968, 3602879701896397 / 36028797018963968,
       3602879701896397 / 36028797018963968]] = Inr (fin_grid [[1, 1, 1]])"
  by (simp add: normalize_eval double_eval)

subsection \<open>C3: a constant image is not rejected\<close>

lemma np_amax_Inr: "concat g \<noteq> [] \<Longrightarrow> \<exists>m. np_amax g = Inr m"
  by (cases "concat g") (simp_all add: np_amax_def del: concat_eq_Nil_conv)

lemma normalize_image_returns:
  assumes "concat img \<noteq> []"
  shows "\<exists>g. normalize_image rnd img = Inr g \<and> map length g = map length img"
proof -
  define centred where "centred = map (map (\<lambda>v. fl_sub rnd (Fin v) (np_mean_fl rnd img))) img"
  have "concat centred \<noteq> []"
    using assms by (simp add: centred_def concat_map_map)
  then obtain m where m: "np_amax centred = Inr m" using np_amax_Inr by blast
  have "normalize_image rnd img = Inr (map (map (\<lambda>c. fl_div rnd c m)) centred)"
    using m by (simp add: normalize_image_def centred_def [symmetric])
  moreover have "map length (map (map (\<lambda>c. fl_div rnd c m)) centred) = map length img"
    by (simp add: centred_def comp_def)
  ultimately show ?thesis by blast
qed

lemma foldl_zero_sum:
  assumes "rnd 0 = Fin 0" and "\<forall>v\<in>set xs. v = 0"
  shows "foldl (\<lambda>s v. fl_add rnd s (Fin v)) (Fin 0) xs = Fin 0"
  using assms(2) by (induction xs) (simp_all add: fl_add_def rounded_def assms(1))

lemma foldl_np_maximum_zero:
  "\<forall>v\<in>set vs. v = Fin 0 \<Longrightarrow> foldl np_maximum (Fin 0) vs = Fin 0"
  by (induction vs) (simp_all add: np_maximum_def)

lemma np_amax_zero:
  assumes "concat g \<noteq> []" and "\<forall>v\<in>set (concat g). v = Fin 0"
  shows "np_amax g = Inr (Fin 0)"
proof (cases "concat g")
  case Nil
  with assms(1) show ?thesis by simp
next
  case (Cons v vs)
  with assms(2) have "v = Fin 0" "\<forall>u\<in>set vs. u = Fin 0" by simp_all
  then show ?thesis
    by (simp add: np_amax_def Cons foldl_np_maximum_zero del: concat_eq_Nil_conv)
qed

lemma normalize_image_zero:
  assumes "concat img \<noteq> []" and "rnd 0 = Fin 0" and "\<forall>v\<in>set (concat img). v = 0"
  shows "normalize_image rnd img = Inr (map (map (\<lambda>v. NaN)) img)"
proof -
  have n: "real (length (concat img)) \<noteq> 0" using assms(1) by simp
  have sum: "foldl (\<lambda>s v. fl_add rnd s (Fin v)) (Fin 0) (concat img) = Fin 0"
    using assms(2,3) by (rule foldl_zero_sum)
  have mean: "np_mean_fl rnd img = Fin 0"
    using n by (simp add: np_mean_fl_def sum fl_div_def rounded_def
        np_divide_def assms(2) del: concat_eq_Nil_conv length_0_conv)
  have cellz: "fl_sub rnd (Fin v) (Fin 0) = Fin 0" if "v \<in> set (concat img)" for v
  proof -
    from that assms(3) have "v = 0" by blast
    then show ?thesis by (simp add: fl_sub_def rounded_def assms(2))
  qed
  have centred: "map (map (\<lambda>v. fl_sub rnd (Fin v) (Fin 0))) img = map (map (\<lambda>v. Fin 0)) img"
    by (intro map_cong refl) (use cellz in auto)
  have "concat (map (map (\<lambda>v. Fin 0 :: npval)) img) \<noteq> []"
    using assms(1) by (simp add: concat_map_map)
  moreover have "\<forall>v\<in>set (concat (map (map (\<lambda>v. Fin 0 :: npval)) img)). v = Fin 0"
    by (auto simp: concat_map_map)
  ultimately have "np_amax (map (map (\<lambda>v. Fin 0)) img) = Inr (Fin 0)"
    by (rule np_amax_zero)
  then show ?thesis
    by (simp add: normalize_image_def mean centred fl_div_def rounded_def np_divide_def comp_def)
qed

text \<open>
  C3 says that the normalizer fails with an error on an image of zero variance. On
  the all-zero image it returns a grid, every cell of which is \<open>0/0 = nan\<close>.
\<close>

theorem normalize_image_zero_counterexample:
  "normalize_image double [[0, 0], [0, 0]] = Inr [[NaN, NaN], [NaN, NaN]]"
  by (simp add: normalize_eval double_zero)

text \<open>
  C3, amended. The normalizer has no check for zero variance and no error for it: on
  every image with at least one cell, constant or not, it returns a grid of the shape
  of the image, whatever the rounding; on the all-zero image every cell of that grid
  is nan (for a rounding that leaves 0 alone, as \<open>double\<close> and \<open>exact\<close> do).
\<close>

theorem normalize_image_no_rejection:
  assumes "concat img \<noteq> []"
  shows "\<exists>g. normalize_image rnd img = Inr g \<and> map length g = map length img \<and>
             (rnd 0 = Fin 0 \<and> (\<forall>v\<in>set (concat img). v = 0) \<longrightarrow> g = map (map (\<lambda>v. NaN)) img)"
  using normalize_image_returns [OF assms, of rnd] normalize_image_zero [OF assms, of rnd]
  by auto

theorem normalize_image_no_rejection_witness:
  "concat [[0, 0, 0 :: real]] \<noteq> [] \<and> double 0 = Fin 0 \<and> set (concat [[0, 0, 0 :: real]]) \<subseteq> {0} \<and>
   normalize_image double [[0, 0, 0]] = Inr [[NaN, NaN, NaN]] \<and>
   map length [[NaN, NaN, NaN]] = map length [[0, 0, 0 :: real]]"
  using normalize_image_no_rejection [of "[[0, 0, 0]]" double] by (simp add: double_zero)

subsection \<open>C8: normalizing twice\<close>









lemma normalize_image_exact_124:
  "normalize_image exact [[1, 2, 4]] = Inr (fin_grid [[- (4 / 5), - (1 / 5), 1]]) \<and>
   normalize_image exact [[- (4 / 5), - (1 / 5), 1]] = Inr (fin_grid [[- (4 / 5), - (1 / 5), 1]])"
  by (simp add: normalize_eval exact_def)

subsection \<open>The detector on the test grids\<close>

lemma circkernel_2_1: "circkernel 2 1 = Inr (ring_2_1, 2)"
  by code_simp

lemma convolve_two_dots: "convolve two_dots ring_2_1 = Inr two_dots_map"
  by (simp add: convolve_def convolve_cell_def pixel0_def ncols_def)

lemma np_max_two_dots: "np_max two_dots_map = Inr 1"
  by (simp add: np_max_def)

lemma correlation_map_two_dots: "correlation_map two_dots ring_2_1 = Inr (fin_grid two_dots_map)"
  by (simp add: correlation_map_def convolve_two_dots np_max_two_dots np_divide_def fin_grid_def)

lemma peaks_two_dots: "peak_local_max (fin_grid two_dots_map) 2 (11 / 20) = [(2, 2)]"
  by code_simp

lemma refine_peak_two_dots:
  "refine_peak (fin_grid two_dots_map) (2, 2) = Inr (Fin (67 / 25), Fin (- (13 / 21)))"
  by (simp add: refine_peak_def col_window_def row_window_def centroid_def np_dot_def np_sum_def
      py_index_def py_slice_def ncols_def fin_grid_def prange_def p_def np_divide_def upto.simps)

subsection \<open>C4: shape and maximum of the correlation map\<close>

lemma map_length_convolve:
  "convolve img ckern = Inr conv \<Longrightarrow> map length conv = map length img"
  by (auto simp: convolve_def map_nth intro!: nth_equalityI split: if_splits)


lemma np_max_Inr_nonempty: "np_max g = Inr m \<Longrightarrow> concat g \<noteq> []"
  by (cases "concat g") (simp_all add: np_max_def del: concat_eq_Nil_conv)

lemma convolve_dot_image:
  "convolve dot_image ring_2_1 =
     Inr [[4 / 25, 4 / 25, 4 / 25, 4 / 25, 4 / 25],
          [4 / 25, - (21 / 25), 4 / 25, - (21 / 25), 4 / 25],
          [4 / 25, 4 / 25, 4 / 25, 4 / 25, 4 / 25],
          [4 / 25, - (21 / 25), 4 / 25, - (21 / 25), 4 / 25],
          [4 / 25, 4 / 25, 4 / 25, 4 / 25, 4 / 25]]"
  by (simp add: convolve_def convolve_cell_def pixel0_def ncols_def)

lemma np_max_mem: "np_max g = Inr m \<Longrightarrow> m \<in> set (concat g) \<and> (\<forall>v\<in>set (concat g). v \<le> m)"
proof -
  assume a: "np_max g = Inr m"
  then have ne: "concat g \<noteq> []" by (rule np_max_Inr_nonempty)
  with a have m: "m = Max (set (concat g))" using np_max_Max [OF ne] by simp
  have "Max (set (concat g)) \<in> set (concat g)"
    using ne by (intro Max_in) simp_all
  moreover have "\<forall>v\<in>set (concat g). v \<le> Max (set (concat g))" by simp
  ultimately show ?thesis unfolding m by blast
qed

text \<open>
  C4 says that the maximum absolute value of the correlation map is 1. The map is
  divided by its maximum, not by its maximum absolute value: on the image with the one
  pixel \<open>-1\<close> at the centre the maximum of the map is 1 and four cells hold \<open>-21/4\<close>.
\<close>

theorem correlation_map_max_abs_counterexample:
  "circkernel 2 1 = Inr (ring_2_1, 2) \<and>
   correlation_map dot_image ring_2_1 = Inr (fin_grid dot_map) \<and>
   np_max (map (map abs) dot_map) = Inr (21 / 4)"
  by (simp add: circkernel_2_1 correlation_map_def convolve_dot_image np_max_def np_divide_def
      fin_grid_def)

text \<open>
  C4, amended. For every image and kernel for which the correlator returns a map,
  the map has the dimensions of the image; and when the raw correlation has a
  positive maximum, the maximum of the map (not its maximum absolute value) is 1:
  a cell of the map is 1 and no cell is greater.
\<close>

theorem correlation_map_shape_max:
  assumes "correlation_map img ckern = Inr g"
  shows "length g = length img \<and> map length g = map length img \<and>
         ((\<exists>conv m. convolve img ckern = Inr conv \<and> np_max conv = Inr m \<and> 0 < m) \<longrightarrow>
            Fin 1 \<in> set (concat g) \<and> (\<forall>c\<in>set (concat g). np_le c (Fin 1)))"
proof -
  from assms obtain conv m where cv: "convolve img ckern = Inr conv"
    and mx: "np_max conv = Inr m" and g: "g = map (map (\<lambda>v. np_divide v m)) conv"
    by (auto simp: correlation_map_def split: sum.splits)
  have shape: "map length g = map length img"
    using map_length_convolve [OF cv] by (simp add: g comp_def)
  then have len: "length g = length img" by (rule map_eq_imp_length_eq)
  have cg: "concat g = map (\<lambda>v. np_divide v m) (concat conv)"
    by (simp add: g concat_map_map)
  have mx1: "Fin 1 \<in> set (concat g) \<and> (\<forall>c\<in>set (concat g). np_le c (Fin 1))" if "0 < m"
  proof -
    from np_max_mem [OF mx] have mem: "m \<in> set (concat conv)"
      and le: "\<forall>v\<in>set (concat conv). v \<le> m" by simp_all
    have "np_divide m m = Fin 1" using that by (simp add: np_divide_def)
    with mem have one: "Fin 1 \<in> set (concat g)" unfolding cg by force
    have "np_le (np_divide v m) (Fin 1)" if "v \<in> set (concat conv)" for v
    proof -
      from le that have "v \<le> m" by blast
      then have "v / m \<le> 1" using \<open>0 < m\<close> by (simp add: field_simps)
      then show ?thesis using \<open>0 < m\<close> by (auto simp: np_divide_def np_le_def np_eq_def)
    qed
    with one show ?thesis unfolding cg by auto
  qed
  show ?thesis using len shape mx1 cv mx by auto
qed

theorem correlation_map_shape_max_witness:
  "correlation_map [[1, 2], [3, 4]] [[1]] = Inr (fin_grid [[1 / 4, 1 / 2], [3 / 4, 1]]) \<and>
   convolve [[1, 2], [3, 4]] [[1]] = Inr [[1, 2], [3, 4]] \<and> np_max [[1, 2], [3, 4]] = Inr 4 \<and>
   (0::real) < 4 \<and>
   length (fin_grid [[1 / 4, 1 / 2], [3 / 4, 1]]) = length [[1, 2], [3, 4 :: real]] \<and>
   Fin 1 \<in> set (concat (fin_grid [[1 / 4, 1 / 2], [3 / 4, 1]]))"
proof -
  have h1: "convolve [[1, 2], [3, 4]] [[1]] = Inr [[1, 2], [3, 4]]"
    by (simp add: convolve_def convolve_cell_def pixel0_def ncols_def)
  have h2: "np_max [[1, 2], [3, 4]] = Inr 4" by (simp add: np_max_def)
  have h: "correlation_map [[1, 2], [3, 4]] [[1]] = Inr (fin_grid [[1 / 4, 1 / 2], [3 / 4, 1]])"
    by (simp add: correlation_map_def h1 h2 np_divide_def fin_grid_def)
  have h3: "(0::real) < 4" by simp
  from correlation_map_shape_max [OF h] h h1 h2 h3 show ?thesis by blast
qed

subsection \<open>C7: a higher threshold never yields more peaks\<close>

lemma np_le_Fin_mono: "t1 \<le> t2 \<Longrightarrow> np_le (Fin t2) v \<Longrightarrow> np_le (Fin t1) v"
  by (cases v) (auto simp: np_le_def np_eq_def)

lemma length_filter_mono:
  assumes "\<And>x. x \<in> set xs \<Longrightarrow> P x \<Longrightarrow> Q x"
  shows "length (filter P xs) \<le> length (filter Q xs)"
  using assms by (induction xs) auto

lemma peak_local_max_antitone:
  "t1 \<le> t2 \<Longrightarrow> length (peak_local_max conv d t2) \<le> length (peak_local_max conv d t1)"
  unfolding peak_local_max_def
  by (rule length_filter_mono) (auto dest: np_le_Fin_mono)

text \<open>
  C7. For a fixed image, radius and ring width, and thresholds \<open>t1 \<le> t2\<close>,
  \<open>convcirc_peaks\<close> either fails with the same error for both thresholds or returns
  peak lists for both, and the list for \<open>t2\<close> is no longer than the list for \<open>t1\<close>.
\<close>

theorem convcirc_peaks_antitone:
  assumes "t1 \<le> t2"
  shows "(\<exists>e. convcirc_peaks img R w t1 = Inl e \<and> convcirc_peaks img R w t2 = Inl e) \<or>
         (\<exists>p1 p2. convcirc_peaks img R w t1 = Inr p1 \<and> convcirc_peaks img R w t2 = Inr p2 \<and>
                   length p2 \<le> length p1)"
  using peak_local_max_antitone [OF assms]
  by (auto simp: convcirc_peaks_def split: sum.splits prod.splits)

lemma peaks_two_dots_low: "peak_local_max (fin_grid two_dots_map) 2 (1 / 2) = [(2, 2)]"
  by code_simp

lemma peaks_two_dots_high: "peak_local_max (fin_grid two_dots_map) 2 2 = []"
  by code_simp

theorem convcirc_peaks_antitone_witness:
  "(1 / 2 :: real) \<le> 2 \<and>
   convcirc_peaks two_dots 2 1 (1 / 2) = Inr [(2, 2)] \<and> convcirc_peaks two_dots 2 1 2 = Inr [] \<and>
   length ([] :: (nat \<times> nat) list) \<le> length [(2 :: nat, 2 :: nat)]"
proof -
  have a: "convcirc_peaks two_dots 2 1 (1 / 2) = Inr [(2, 2)]"
    by (simp add: convcirc_peaks_def circkernel_2_1 correlation_map_two_dots peaks_two_dots_low)
  have b: "convcirc_peaks two_dots 2 1 2 = Inr []"
    by (simp add: convcirc_peaks_def circkernel_2_1 correlation_map_two_dots peaks_two_dots_high)
  have h: "(1 / 2 :: real) \<le> 2" by simp
  from convcirc_peaks_antitone [OF h, of two_dots 2 1] a b h show ?thesis by simp
qed

subsection \<open>C2: how far the refinement moves a peak\<close>

lemma prange_eq: "prange = [- 2, - 1, 0, 1, 2]"
  by (simp add: prange_def p_def upto.simps)

lemma centroid_length_error: "length ws \<noteq> 5 \<Longrightarrow> centroid x0 ws = Inl ValueError"
  by (simp add: centroid_def np_dot_def prange_eq)

lemma centroid_five:
  "centroid x0 [Fin a, Fin b, Fin c, Fin d, Fin e] =
     Inr (np_divide ((real_of_int x0 - 2) * a + (real_of_int x0 - 1) * b + real_of_int x0 * c +
                     (real_of_int x0 + 1) * d + (real_of_int x0 + 2) * e)
                    (a + b + c + d + e))"
  by (simp add: centroid_def np_dot_def np_sum_def prange_eq algebra_simps)

lemma centroid_bounded:
  assumes "0 \<le> a" "0 \<le> b" "0 \<le> c" "0 \<le> d" "0 \<le> e" and "0 < a + b + c + d + e"
  shows "\<exists>r. centroid x0 [Fin a, Fin b, Fin c, Fin d, Fin e] = Inr (Fin r) \<and>
             \<bar>r - real_of_int x0\<bar> \<le> 2"
proof -
  define S where "S = a + b + c + d + e"
  define N where "N = (real_of_int x0 - 2) * a + (real_of_int x0 - 1) * b + real_of_int x0 * c +
                     (real_of_int x0 + 1) * d + (real_of_int x0 + 2) * e"
  have S: "0 < S" using assms(6) by (simp add: S_def)
  have eq: "centroid x0 [Fin a, Fin b, Fin c, Fin d, Fin e] = Inr (Fin (N / S))"
    using S by (simp add: centroid_five np_divide_def N_def S_def)
  have "N - real_of_int x0 * S = - 2 * a - b + d + 2 * e"
    by (simp add: N_def S_def algebra_simps)
  then have "\<bar>N - real_of_int x0 * S\<bar> \<le> 2 * S"
    using assms(1-5) by (simp add: S_def abs_le_iff)
  moreover have "N / S - real_of_int x0 = (N - real_of_int x0 * S) / S"
    using S by (simp add: field_simps)
  ultimately have "\<bar>N / S - real_of_int x0\<bar> \<le> 2"
    using S by (simp add: abs_divide field_simps)
  with eq show ?thesis by blast
qed


lemma take5_drop:
  "n + 5 \<le> length xs \<Longrightarrow>
   take 5 (drop n xs) = [xs ! n, xs ! (n + 1), xs ! (n + 2), xs ! (n + 3), xs ! (n + 4)]"
proof -
  assume a: "n + 5 \<le> length xs"
  have "take 5 (drop n xs) = map (\<lambda>i. xs ! (n + i)) [0..<5]"
    using a by (intro nth_equalityI) simp_all
  also have "[0..<5] = [0, 1, 2, 3, 4 :: nat]" by (simp add: upt_rec)
  finally show ?thesis by simp
qed

lemma py_slice_window:
  assumes "2 \<le> x0" and "x0 + 2 < int (length xs)"
  shows "py_slice xs (x0 - p) (x0 + p + 1) =
           [xs ! nat (x0 - 2), xs ! nat (x0 - 1), xs ! nat x0, xs ! nat (x0 + 1), xs ! nat (x0 + 2)]"
proof -
  define n where "n = nat (x0 - 2)"
  have x0: "x0 = int n + 2" using assms(1) by (simp add: n_def)
  have len: "n + 5 \<le> length xs" using assms(2) x0 by simp
  have "py_slice xs (x0 - p) (x0 + p + 1) = take 5 (drop n xs)"
    using assms by (simp add: py_slice_def p_def Let_def n_def min_def)
  also have "\<dots> = [xs ! n, xs ! (n + 1), xs ! (n + 2), xs ! (n + 3), xs ! (n + 4)]"
    using len by (rule take5_drop)
  finally show ?thesis
    by (simp add: x0 nat_add_distrib add.commute)
qed

lemma ncols_fin_grid: "ncols (fin_grid g) = ncols g"
  by (cases g) (simp_all add: ncols_def fin_grid_def)

lemma fin_grid_nth:
  "rectangular g \<Longrightarrow> i < length g \<Longrightarrow> j < ncols g \<Longrightarrow> fin_grid g ! i ! j = Fin (g ! i ! j)"
  by (simp add: fin_grid_def rectangular_def)

lemma col_window_interior:
  assumes "rectangular g" and "interior g (x0, y0)"
  shows "col_window (fin_grid g) x0 y0 = Inr (map Fin (col_values g (x0, y0)))"
proof -
  have b: "2 \<le> x0" "x0 + 2 < int (length g)" "2 \<le> y0" "y0 + 2 < int (ncols g)"
    using assms(2) by (simp_all add: interior_def p_def)
  have idx: "py_index (ncols (fin_grid g)) y0 = Inr (nat y0)"
    using b by (simp add: py_index_def ncols_fin_grid)
  have sl: "py_slice (fin_grid g) (x0 - p) (x0 + p + 1) =
      [fin_grid g ! nat (x0 - 2), fin_grid g ! nat (x0 - 1), fin_grid g ! nat x0,
       fin_grid g ! nat (x0 + 1), fin_grid g ! nat (x0 + 2)]"
    using b by (intro py_slice_window) (simp_all add: fin_grid_def)
  have cellv: "fin_grid g ! nat (x0 + k) ! nat y0 = Fin (g ! nat (x0 + k) ! nat y0)"
    if "- 2 \<le> k" "k \<le> 2" for k
    using assms(1) that b by (intro fin_grid_nth) auto
  show ?thesis
    using cellv [of "- 2"] cellv [of "- 1"] cellv [of 0] cellv [of 1] cellv [of 2]
    by (simp add: col_window_def idx sl col_values_def prange_eq)
qed

lemma row_window_interior:
  assumes "rectangular g" and "interior g (x0, y0)"
  shows "row_window (fin_grid g) x0 y0 = Inr (map Fin (row_values g (x0, y0)))"
proof -
  have b: "2 \<le> x0" "x0 + 2 < int (length g)" "2 \<le> y0" "y0 + 2 < int (ncols g)"
    using assms(2) by (simp_all add: interior_def p_def)
  have idx: "py_index (length (fin_grid g)) x0 = Inr (nat x0)"
    using b by (simp add: py_index_def fin_grid_def)
  have rowlen: "length (g ! nat x0) = ncols g"
    using assms(1) b by (simp add: rectangular_def)
  have row: "fin_grid g ! nat x0 = map Fin (g ! nat x0)"
    using b by (simp add: fin_grid_def)
  have sl: "py_slice (map Fin (g ! nat x0)) (y0 - p) (y0 + p + 1) =
      [map Fin (g ! nat x0) ! nat (y0 - 2), map Fin (g ! nat x0) ! nat (y0 - 1),
       map Fin (g ! nat x0) ! nat y0, map Fin (g ! nat x0) ! nat (y0 + 1),
       map Fin (g ! nat x0) ! nat (y0 + 2)]"
    using b rowlen by (intro py_slice_window) simp_all
  have cellv: "map Fin (g ! nat x0) ! nat (y0 + k) = Fin (g ! nat x0 ! nat (y0 + k))"
    if "- 2 \<le> k" "k \<le> 2" for k
    using that b rowlen by (intro nth_map) auto
  show ?thesis
    using cellv [of "- 2"] cellv [of "- 1"] cellv [of 0] cellv [of 1] cellv [of 2]
    by (simp add: row_window_def idx row sl row_values_def prange_eq)
qed

lemma centroid_positive_window:
  assumes "length ws = 5" and "positive_window ws"
  shows "\<exists>r. centroid x0 (map Fin ws) = Inr (Fin r) \<and> \<bar>r - real_of_int x0\<bar> \<le> 2"
proof -
  from assms(1) obtain a b c d e where ws: "ws = [a, b, c, d, e]"
    by (auto simp: length_Suc_conv eval_nat_numeral)
  show ?thesis
    using assms(2) unfolding ws positive_window_def
    by (simp only: list.map) (rule centroid_bounded; simp)
qed

lemma refine_peak_interior:
  assumes "rectangular g" and "interior g pk"
    and "positive_window (col_values g pk)" and "positive_window (row_values g pk)"
  shows "\<exists>f. refine_peak (fin_grid g) pk = Inr f \<and> within_window pk f"
proof -
  obtain x0 y0 where pk: "pk = (x0, y0)" by (cases pk)
  have lc: "length (col_values g pk) = 5" and lr: "length (row_values g pk) = 5"
    by (simp_all add: col_values_def row_values_def prange_eq)
  from centroid_positive_window [OF lc assms(3), of x0]
  obtain fx where fx: "centroid x0 (map Fin (col_values g pk)) = Inr (Fin fx)"
    "\<bar>fx - real_of_int x0\<bar> \<le> 2" by blast
  from centroid_positive_window [OF lr assms(4), of y0]
  obtain fy where fy: "centroid y0 (map Fin (row_values g pk)) = Inr (Fin fy)"
    "\<bar>fy - real_of_int y0\<bar> \<le> 2" by blast
  have "refine_peak (fin_grid g) pk = Inr (Fin fx, Fin fy)"
    using col_window_interior [OF assms(1)] row_window_interior [OF assms(1)] assms(2) fx(1) fy(1)
    by (simp add: refine_peak_def pk)
  moreover have "within_window pk (Fin fx, Fin fy)"
    using fx(2) fy(2) by (simp add: within_window_def pk p_def)
  ultimately show ?thesis by blast
qed

text \<open>
  C2 says that the refined coordinate is within \<open>p = 2\<close> pixels of the integer peak.
  The centroid weights are the values of the correlation map, which may be negative.
  On \<open>two_dots\<close> with \<open>R = 2\<close>, \<open>w = 1\<close> and the notebook's threshold 0.55 the one peak
  is \<open>(2, 2)\<close>; the row through it is \<open>21/25, -4/25, 1, -1, 4/25\<close> and the refined
  column is \<open>-13/21\<close>, which is \<open>55/21 > 2\<close> away from 2.
\<close>

theorem refinement_unbounded_counterexample:
  "convcirc_peaks two_dots 2 1 (11 / 20) = Inr [(2, 2)] \<and>
   convcirc two_dots 2 1 (11 / 20) = Inr [(Fin (67 / 25), Fin (- (13 / 21)))] \<and>
   \<not> \<bar>- (13 / 21) - (2 :: real)\<bar> \<le> 2"
  by (simp add: convcirc_peaks_def convcirc_def circkernel_2_1 correlation_map_two_dots
      peaks_two_dots refine_peak_two_dots)

text \<open>
  C2, amended. For every peak whose two windows of \<open>2 p + 1\<close> cells lie inside the
  correlation map, hold no negative value and do not sum to zero, the refinement
  returns finite coordinates that differ from the integer peak by at most \<open>p = 2\<close> on
  each axis; this holds for all peaks of the list together.
\<close>

theorem refine_bounded:
  assumes "rectangular g"
    and "\<forall>pk\<in>set peaks. interior g pk \<and> positive_window (col_values g pk) \<and>
                          positive_window (row_values g pk)"
  shows "\<exists>fitmax. refine (fin_grid g) peaks = Inr fitmax \<and> list_all2 within_window peaks fitmax"
  using assms(2)
proof (induction peaks)
  case Nil
  then show ?case by simp
next
  case (Cons pk pks)
  from Cons.prems have "interior g pk" "positive_window (col_values g pk)"
    "positive_window (row_values g pk)" by simp_all
  from refine_peak_interior [OF assms(1) this]
  obtain f where f: "refine_peak (fin_grid g) pk = Inr f" "within_window pk f" by blast
  from Cons.IH Cons.prems
  obtain fs where fs: "refine (fin_grid g) pks = Inr fs" "list_all2 within_window pks fs" by auto
  from f fs show ?case by simp
qed

theorem refine_bounded_witness:
  "rectangular bump_map \<and> interior bump_map (2, 2) \<and>
   positive_window (col_values bump_map (2, 2)) \<and> positive_window (row_values bump_map (2, 2)) \<and>
   (\<exists>fitmax. refine (fin_grid bump_map) [(2, 2)] = Inr fitmax \<and>
             list_all2 within_window [(2, 2)] fitmax)"
proof -
  have r: "rectangular bump_map" by (simp add: rectangular_def ncols_def)
  have i: "interior bump_map (2, 2)" by (simp add: interior_def ncols_def p_def)
  have c: "positive_window (col_values bump_map (2, 2))"
    by (simp add: positive_window_def col_values_def prange_eq)
  have w: "positive_window (row_values bump_map (2, 2))"
    by (simp add: positive_window_def row_values_def prange_eq)
  have h: "\<forall>pk\<in>set [(2, 2)]. interior bump_map pk \<and> positive_window (col_values bump_map pk) \<and>
                         positive_window (row_values bump_map pk)"
    using i c w by simp
  from r i c w refine_bounded [OF r h] show ?thesis by blast
qed

subsection \<open>C10: peaks near the border\<close>

lemma centroid_Inr: "length ws = 5 \<Longrightarrow> \<exists>v. centroid x0 ws = Inr v"
  by (simp add: centroid_def np_dot_def prange_eq)

lemma py_slice_short:
  assumes "0 \<le> x0" and "x0 < int (length xs)" and "x0 < p \<or> int (length xs) \<le> x0 + p"
  shows "length (py_slice xs (x0 - p) (x0 + p + 1)) \<noteq> 5"
  using assms by (auto simp: py_slice_def p_def Let_def min_def max_def)

lemma py_slice_full:
  assumes "p \<le> x0" and "x0 + p < int (length xs)"
  shows "length (py_slice xs (x0 - p) (x0 + p + 1)) = 5"
  using assms by (auto simp: py_slice_def p_def Let_def min_def max_def)

lemma refine_peak_border:
  assumes "rectangular conv" and "in_grid conv pk" and "\<not> interior conv pk"
  shows "refine_peak conv pk = Inl ValueError"
proof -
  obtain x0 y0 where pk: "pk = (x0, y0)" by (cases pk)
  have b: "0 \<le> x0" "x0 < int (length conv)" "0 \<le> y0" "y0 < int (ncols conv)"
    using assms(2) by (simp_all add: in_grid_def pk)
  have idy: "py_index (ncols conv) y0 = Inr (nat y0)"
    using b by (simp add: py_index_def)
  have idx: "py_index (length conv) x0 = Inr (nat x0)"
    using b by (simp add: py_index_def)
  define wx where "wx = map (\<lambda>row. row ! nat y0) (py_slice conv (x0 - p) (x0 + p + 1))"
  define wy where "wy = py_slice (conv ! nat x0) (y0 - p) (y0 + p + 1)"
  have cw: "col_window conv x0 y0 = Inr wx" by (simp add: col_window_def idy wx_def)
  have rw: "row_window conv x0 y0 = Inr wy" by (simp add: row_window_def idx wy_def)
  have rowlen: "length (conv ! nat x0) = ncols conv"
    using assms(1) b by (simp add: rectangular_def)
  show ?thesis
  proof (cases "x0 < p \<or> int (length conv) \<le> x0 + p")
    case True
    then have "length wx \<noteq> 5"
      using py_slice_short [OF b(1,2)] by (simp add: wx_def)
    then have "centroid x0 wx = Inl ValueError" by (rule centroid_length_error)
    then show ?thesis by (simp add: refine_peak_def pk cw)
  next
    case False
    then have "length wx = 5"
      using py_slice_full [of x0 conv] by (simp add: wx_def)
    then obtain fx where fx: "centroid x0 wx = Inr fx" using centroid_Inr by blast
    from False assms(3) have "y0 < p \<or> int (ncols conv) \<le> y0 + p"
      by (auto simp: interior_def pk)
    then have "length wy \<noteq> 5"
      using py_slice_short [of y0 "conv ! nat x0"] b rowlen by (simp add: wy_def)
    then have "centroid y0 wy = Inl ValueError" by (rule centroid_length_error)
    then show ?thesis by (simp add: refine_peak_def pk cw rw fx)
  qed
qed

lemma refine_peak_in_grid:
  assumes "in_grid conv pk"
  shows "refine_peak conv pk = Inl ValueError \<or> (\<exists>f. refine_peak conv pk = Inr f)"
proof -
  obtain x0 y0 where pk: "pk = (x0, y0)" by (cases pk)
  have b: "0 \<le> x0" "x0 < int (length conv)" "0 \<le> y0" "y0 < int (ncols conv)"
    using assms by (simp_all add: in_grid_def pk)
  have idy: "py_index (ncols conv) y0 = Inr (nat y0)"
    using b by (simp add: py_index_def)
  have idx: "py_index (length conv) x0 = Inr (nat x0)"
    using b by (simp add: py_index_def)
  have c: "centroid z ws = Inl ValueError \<or> (\<exists>v. centroid z ws = Inr v)" for z ws
    by (simp add: centroid_def np_dot_def)
  show ?thesis
    using c [of x0 "map (\<lambda>row. row ! nat y0) (py_slice conv (x0 - p) (x0 + p + 1))"]
          c [of y0 "py_slice (conv ! nat x0) (y0 - p) (y0 + p + 1)"]
    by (auto simp: refine_peak_def pk col_window_def row_window_def idx idy)
qed

lemma py_slice_shorter:
  assumes "0 \<le> x0" and "x0 < int (length xs)" and "x0 < p \<or> int (length xs) \<le> x0 + p"
  shows "int (length (py_slice xs (x0 - p) (x0 + p + 1))) < 2 * p + 1"
  using assms by (auto simp: py_slice_def p_def Let_def min_def max_def)

lemma border_window_short:
  assumes "rectangular conv" and "in_grid conv pk" and "\<not> interior conv pk"
  shows "\<exists>wx wy. col_window conv (fst pk) (snd pk) = Inr wx \<and>
                 row_window conv (fst pk) (snd pk) = Inr wy \<and>
                 (int (length wx) < 2 * p + 1 \<or> int (length wy) < 2 * p + 1)"
proof -
  obtain x0 y0 where pk: "pk = (x0, y0)" by (cases pk)
  have b: "0 \<le> x0" "x0 < int (length conv)" "0 \<le> y0" "y0 < int (ncols conv)"
    using assms(2) by (simp_all add: in_grid_def pk)
  have idy: "py_index (ncols conv) y0 = Inr (nat y0)"
    using b by (simp add: py_index_def)
  have idx: "py_index (length conv) x0 = Inr (nat x0)"
    using b by (simp add: py_index_def)
  define wx where "wx = map (\<lambda>row. row ! nat y0) (py_slice conv (x0 - p) (x0 + p + 1))"
  define wy where "wy = py_slice (conv ! nat x0) (y0 - p) (y0 + p + 1)"
  have cw: "col_window conv x0 y0 = Inr wx" by (simp add: col_window_def idy wx_def)
  have rw: "row_window conv x0 y0 = Inr wy" by (simp add: row_window_def idx wy_def)
  have rowlen: "length (conv ! nat x0) = ncols conv"
    using assms(1) b by (simp add: rectangular_def)
  have "int (length wx) < 2 * p + 1 \<or> int (length wy) < 2 * p + 1"
  proof (cases "x0 < p \<or> int (length conv) \<le> x0 + p")
    case True
    then show ?thesis
      using py_slice_shorter [OF b(1,2)] by (simp add: wx_def)
  next
    case False
    with assms(3) have "y0 < p \<or> int (ncols conv) \<le> y0 + p"
      by (auto simp: interior_def pk)
    then show ?thesis
      using py_slice_shorter [of y0 "conv ! nat x0"] b rowlen by (simp add: wy_def)
  qed
  with cw rw show ?thesis by (simp add: pk)
qed
text \<open>
  C10 says that for a peak within \<open>p\<close> pixels of a border the refined coordinate is
  computed from the truncated or empty window. On the 5 by 5 map below the window is
  indeed truncated (peak row 3) or empty (peak row 1, where the slice starts at index
  \<open>-1\<close>), but then \<open>np.dot\<close> of the five coordinates with the shorter window raises
  ValueError and nothing is computed.
\<close>

theorem refine_border_counterexample:
  "refine (fin_grid bump_map) [(1, 2)] = Inl ValueError \<and>
   col_window (fin_grid bump_map) 1 2 = Inr [] \<and>
   refine (fin_grid bump_map) [(3, 2)] = Inl ValueError \<and>
   col_window (fin_grid bump_map) 3 2 = Inr [Fin (1 / 2), Fin 1, Fin (1 / 2), Fin (3 / 4)]"
  by (simp add: refine_peak_def col_window_def centroid_def np_dot_def py_index_def py_slice_def
      ncols_def fin_grid_def prange_eq p_def)

text \<open>
  C10, amended. The refinement has no bounds check: for a rectangular correlation
  map and peaks inside it, every peak that lies within \<open>p\<close> pixels of a border has a
  window of fewer than \<open>2 p + 1\<close> cells on one of the axes, and if there is such a peak
  the refinement as a whole fails with ValueError; no refined coordinate is
  returned, for that peak or any other, and nothing is clamped.
\<close>

theorem refine_border_error:
  assumes "rectangular conv" and "\<forall>pk\<in>set peaks. in_grid conv pk"
    and "\<exists>pk\<in>set peaks. \<not> interior conv pk"
  shows "refine conv peaks = Inl ValueError \<and>
         (\<forall>pk\<in>set peaks. \<not> interior conv pk \<longrightarrow>
            (\<exists>wx wy. col_window conv (fst pk) (snd pk) = Inr wx \<and>
                     row_window conv (fst pk) (snd pk) = Inr wy \<and>
                     (int (length wx) < 2 * p + 1 \<or> int (length wy) < 2 * p + 1)))"
proof
  show "refine conv peaks = Inl ValueError"
    using assms(2,3)
  proof (induction peaks)
    case Nil
    then show ?case by simp
  next
    case (Cons pk pks)
    have ig: "in_grid conv pk" using Cons.prems(1) by simp
    show ?case
    proof (cases "interior conv pk")
      case False
      with assms(1) ig have "refine_peak conv pk = Inl ValueError" by (intro refine_peak_border)
      then show ?thesis by simp
    next
      case True
      with Cons.prems have "\<forall>pk\<in>set pks. in_grid conv pk" "\<exists>pk\<in>set pks. \<not> interior conv pk"
        by auto
      then have "refine conv pks = Inl ValueError" by (rule Cons.IH)
      with refine_peak_in_grid [OF ig] show ?thesis by auto
    qed
  qed
  show "\<forall>pk\<in>set peaks. \<not> interior conv pk \<longrightarrow>
            (\<exists>wx wy. col_window conv (fst pk) (snd pk) = Inr wx \<and>
                     row_window conv (fst pk) (snd pk) = Inr wy \<and>
                     (int (length wx) < 2 * p + 1 \<or> int (length wy) < 2 * p + 1))"
    using assms(1,2) border_window_short by blast
qed

theorem refine_border_error_witness:
  "rectangular (fin_grid bump_map) \<and> in_grid (fin_grid bump_map) (2, 2) \<and>
   in_grid (fin_grid bump_map) (2, 3) \<and> \<not> interior (fin_grid bump_map) (2, 3) \<and>
   refine (fin_grid bump_map) [(2, 2), (2, 3)] = Inl ValueError \<and>
   (\<exists>wx wy. col_window (fin_grid bump_map) 2 3 = Inr wx \<and>
            row_window (fin_grid bump_map) 2 3 = Inr wy \<and>
            (int (length wx) < 2 * p + 1 \<or> int (length wy) < 2 * p + 1))"
proof -
  have r: "rectangular (fin_grid bump_map)" by (simp add: rectangular_def ncols_def fin_grid_def)
  have i1: "in_grid (fin_grid bump_map) (2, 2)" and i2: "in_grid (fin_grid bump_map) (2, 3)"
    by (simp_all add: in_grid_def ncols_def fin_grid_def)
  have n: "\<not> interior (fin_grid bump_map) (2, 3)"
    by (simp add: interior_def ncols_def fin_grid_def p_def)
  have i: "\<forall>pk\<in>set [(2, 2), (2, 3)]. in_grid (fin_grid bump_map) pk"
    using i1 i2 by simp
  have b: "\<exists>pk\<in>set [(2, 2), (2, 3)]. \<not> interior (fin_grid bump_map) pk"
    using n by simp
  from refine_border_error [OF r i b] n
  have "refine (fin_grid bump_map) [(2, 2), (2, 3)] = Inl ValueError"
    and "\<exists>wx wy. col_window (fin_grid bump_map) 2 3 = Inr wx \<and>
            row_window (fin_grid bump_map) 2 3 = Inr wy \<and>
            (int (length wx) < 2 * p + 1 \<or> int (length wy) < 2 * p + 1)"
    by simp_all
  with r i1 i2 n show ?thesis by blast
qed

end
